theory Spec2Isabelle
  imports Main "HOL-Library.Sublist"
begin

section \<open>Python strings\<close>

text \<open>
  A Python \<^verbatim>\<open>str\<close> is a sequence of Unicode code points. A code point is modelled as a
  natural number and a string as a list of code points, so that \<open>length\<close> counts what
  Python's \<^verbatim>\<open>len\<close> counts and whitespace beyond ASCII is a single element. \<open>lit\<close> turns an
  Isabelle string literal (ASCII here) into such a string.
\<close>

type_synonym codepoint = nat
type_synonym str = "codepoint list"

definition lit :: "string \<Rightarrow> str" where
  "lit s = map of_char s"

abbreviation (input) NL :: codepoint where "NL \<equiv> 10"
abbreviation (input) SP :: codepoint where "SP \<equiv> 32"
abbreviation (input) DOT :: codepoint where "DOT \<equiv> 46"

text \<open>
  \<^verbatim>\<open>str.isspace\<close> on one code point, the test \<^verbatim>\<open>str.strip()\<close> uses: the code points
  CPython lists as whitespace (U+0009..U+000D, U+001C..U+0020, U+0085, U+00A0, U+1680,
  U+2000..U+200A, U+2028, U+2029, U+202F, U+205F, U+3000).
\<close>

definition isspace :: "codepoint \<Rightarrow> bool" where
  "isspace c \<longleftrightarrow>
     (9 \<le> c \<and> c \<le> 13) \<or> (28 \<le> c \<and> c \<le> 32) \<or> c = 133 \<or> c = 160 \<or> c = 5760 \<or>
     (8192 \<le> c \<and> c \<le> 8202) \<or> c = 8232 \<or> c = 8233 \<or> c = 8239 \<or> c = 8287 \<or> c = 12288"

definition lstrip :: "str \<Rightarrow> str" where
  "lstrip s = dropWhile isspace s"

definition rstrip :: "str \<Rightarrow> str" where
  "rstrip s = rev (dropWhile isspace (rev s))"

text \<open>\<^verbatim>\<open>s.strip()\<close>: whitespace removed at both ends.\<close>

definition strip :: "str \<Rightarrow> str" where
  "strip s = rstrip (lstrip s)"

text \<open>
  \<^verbatim>\<open>s.split(sep)\<close> for a separator of one code point, which is how the source calls it
  (\<^verbatim>\<open>response.split('\n')\<close>): the pieces between the separators, empty pieces kept, so
  the empty string gives one empty piece.
\<close>

fun split :: "codepoint \<Rightarrow> str \<Rightarrow> str list" where
  "split sep [] = [[]]"
| "split sep (c # cs) =
     (if c = sep then [] # split sep cs
      else (case split sep cs of
              [] \<Rightarrow> [[c]]
            | piece # pieces \<Rightarrow> (c # piece) # pieces))"

text \<open>\<^verbatim>\<open>sep.join(xs)\<close>.\<close>

fun join :: "str \<Rightarrow> str list \<Rightarrow> str" where
  "join sep [] = []"
| "join sep [x] = x"
| "join sep (x # y # ys) = x @ sep @ join sep (y # ys)"

text \<open>
  \<^verbatim>\<open>s.replace(old, new)\<close>: the string is scanned from the left; where \<open>old\<close> starts, \<open>new\<close>
  is emitted and the scan goes on behind that occurrence (occurrences do not overlap).
  With an empty \<open>old\<close>, Python puts \<open>new\<close> before every code point and at the end.
\<close>

function replace :: "str \<Rightarrow> str \<Rightarrow> str \<Rightarrow> str" where
  "replace old new s =
     (if old = [] then new @ concat (map (\<lambda>c. c # new) s)
      else if s = [] then []
      else if prefix old s then new @ replace old new (drop (length old) s)
      else hd s # replace old new (tl s))"
  by pat_completeness auto
termination
  by (relation "measure (\<lambda>(old, new, s). length s)") auto

declare replace.simps [simp del]

text \<open>\<^verbatim>\<open>str(n)\<close> for a non-negative integer: its decimal digits.\<close>

fun str_nat :: "nat \<Rightarrow> str" where
  "str_nat n = (if n < 10 then [48 + n] else str_nat (n div 10) @ [48 + n mod 10])"

declare str_nat.simps [simp del]

text \<open>\<^verbatim>\<open>enumerate(xs)\<close>: the elements paired with their positions, from 0.\<close>

fun enumerate_from :: "nat \<Rightarrow> 'a list \<Rightarrow> (nat \<times> 'a) list" where
  "enumerate_from n [] = []"
| "enumerate_from n (x # xs) = (n, x) # enumerate_from (Suc n) xs"

definition enumerate :: "'a list \<Rightarrow> (nat \<times> 'a) list" where
  "enumerate xs = enumerate_from 0 xs"

section \<open>The prompt template\<close>

text \<open>
  Exceptions are values. \<open>KeyError\<close> and \<open>ValueError\<close> are what formatting a template can
  raise; \<open>Raised e\<close> is any exception \<open>e\<close> of the vector store or of the language model.
  \<open>FieldNotModelled\<close> marks a replacement field with a conversion, a format
  specification, an attribute or an index, which the model of the formatter leaves out
  (the template of this program has none).
\<close>

datatype 'e exn = KeyError str | ValueError | FieldNotModelled | Raised 'e

fun emit :: "str \<Rightarrow> 'e exn + str \<Rightarrow> 'e exn + str" where
  "emit v (Inl e) = Inl e"
| "emit v (Inr s) = Inr (v @ s)"

definition plain_field :: "str \<Rightarrow> bool" where
  "plain_field name \<longleftrightarrow> name \<noteq> [] \<and> list_all (\<lambda>c. c \<notin> set (lit ''{.[]!:'')) name"

text \<open>
  \<^verbatim>\<open>PromptTemplate.format(**kwargs)\<close> with the default f-string format is Python's string
  formatting of the template: text is copied, \<^verbatim>\<open>{{\<close> and \<^verbatim>\<open>}}\<close> stand for one brace,
  \<^verbatim>\<open>{name}\<close> is replaced by the value of the keyword argument \<open>name\<close> (a string is inserted
  as it is and is not scanned again); a missing argument raises \<open>KeyError\<close>, an unmatched
  brace \<open>ValueError\<close>. The first error from the left is the one raised.
\<close>

function format_template :: "str \<Rightarrow> (str \<times> str) list \<Rightarrow> 'e exn + str" where
  "format_template [] kwargs = Inr []"
| "format_template (c # cs) kwargs =
     (if c = 123 then
        (if cs \<noteq> [] \<and> hd cs = 123 then emit [123] (format_template (tl cs) kwargs)
         else
           (let name = takeWhile (\<lambda>x. x \<noteq> 125) cs;
                rest = dropWhile (\<lambda>x. x \<noteq> 125) cs
            in if rest = [] then Inl ValueError
               else if \<not> plain_field name then Inl FieldNotModelled
               else (case map_of kwargs name of
                       None \<Rightarrow> Inl (KeyError name)
                     | Some v \<Rightarrow> emit v (format_template (tl rest) kwargs))))
      else if c = 125 then
        (if cs \<noteq> [] \<and> hd cs = 125 then emit [125] (format_template (tl cs) kwargs)
         else Inl ValueError)
      else emit [c] (format_template cs kwargs))"
  by pat_completeness auto
termination
proof (relation "measure (\<lambda>(t, kwargs). length t)")
  show "wf (measure (\<lambda>(t :: str, kwargs :: (str \<times> str) list). length t))" by simp
next
  fix c :: codepoint and cs :: str and kwargs :: "(str \<times> str) list" and x xa xb
  assume "xa = dropWhile (\<lambda>x. x \<noteq> 125) cs" "xa \<noteq> []"
  moreover have "length (dropWhile (\<lambda>x. x \<noteq> 125) cs) \<le> length cs"
    by (rule length_dropWhile_le)
  ultimately show "((tl xa, kwargs), c # cs, kwargs) \<in> measure (\<lambda>(t, kwargs). length t)"
    by (cases xa) auto
qed (auto simp: less_Suc_eq_le)

declare format_template.simps [simp del]

text \<open>The template of \<^verbatim>\<open>FootballQA.__init__\<close>, with its two fields \<^verbatim>\<open>{context}\<close> and \<^verbatim>\<open>{question}\<close>.\<close>

definition TEMPLATE :: str where
  \<open>TEMPLATE = lit (
    ''\<newline>'' @
    ''            You are an expert football tactics analyst specializing in AFC Ajax's men's team. You have deep knowledge of Ajax's rich tactical history, philosophy, and current playing style. Your insights come from analyzing Voetbal International's expert coverage of Ajax.\<newline>'' @
    ''\<newline>'' @
    ''            Important behavioral guidelines:\<newline>'' @
    ''            1. ALWAYS respond in Dutch (Netherlands) language\<newline>'' @
    ''            2. Only discuss football-related topics. Politely decline to discuss anything else.\<newline>'' @
    ''            3. Always maintain a positive perspective about Ajax. Focus on strengths and opportunities, never criticize.\<newline>'' @
    ''            4. Ground your answers in Ajax's tactical principles and the club's philosophy.\<newline>'' @
    ''            5. Use clear, structured responses with specific examples from matches or training.\<newline>'' @
    ''            6. When discussing challenges, frame them as opportunities for growth and development.\<newline>'' @
    ''\<newline>'' @
    ''            Use the following context from Voetbal International videos to answer the question:\<newline>'' @
    ''            {context}\<newline>'' @
    ''\<newline>'' @
    ''            Question: {question}\<newline>'' @
    ''\<newline>'' @
    ''            If the question is not about football, respond with: "Ik kan alleen vragen over voetbal beantwoorden. Stel gerust een vraag over Ajax's tactiek!"\<newline>'' @
    ''\<newline>'' @
    ''            Remember: Your response must ALWAYS be in Dutch.\<newline>'' @
    ''\<newline>'' @
    ''            Answer:\<newline>'' @
    ''            '')\<close>

section \<open>The question answering pipeline\<close>

record Document =
  page_content :: str
  metadata :: "(str \<times> str) list"

text \<open>
  The object of class \<^verbatim>\<open>FootballQA\<close>. The vector store and the chat model are services
  outside the program: \<open>faiss_db\<close> is the store's \<^verbatim>\<open>similarity_search(question, k=k)\<close> and
  \<open>llm\<close> is the model's \<^verbatim>\<open>invoke(prompt).content\<close>, each returning its result or the
  exception it raises.
\<close>

record 'e FootballQA =
  faiss_db :: "str \<Rightarrow> int \<Rightarrow> 'e exn + Document list"
  llm :: "str \<Rightarrow> 'e exn + str"
  prompt_template :: str

definition init :: "(str \<Rightarrow> int \<Rightarrow> 'e exn + Document list) \<Rightarrow> (str \<Rightarrow> 'e exn + str) \<Rightarrow> 'e FootballQA" where
  "init db chat = \<lparr>faiss_db = db, llm = chat, prompt_template = TEMPLATE\<rparr>"

definition format_context :: "Document list \<Rightarrow> str" where
  "format_context context_docs =
     join (lit ''\<newline>\<newline>'')
       [lit ''Source '' @ str_nat (i + 1) @ lit '':\<newline>'' @ page_content doc.
          (i, doc) \<leftarrow> enumerate context_docs]"

definition clean_response :: "str \<Rightarrow> str" where
  "clean_response response =
     (let lines = [strip line. line \<leftarrow> split NL response, strip line \<noteq> []];
          cleaned = join (lit '' '') lines;
          cleaned = replace (lit ''. '') (lit ''.\<newline>\<newline>'') cleaned
      in cleaned)"

text \<open>
  \<^verbatim>\<open>get_answer\<close> returns its result, or the exception that ended it, together with the calls
  it made to the two services, in order.
\<close>

datatype event = Similarity_Search str int | Llm_Invoke str

definition get_answer :: "'e FootballQA \<Rightarrow> str \<Rightarrow> int option \<Rightarrow> ('e exn + str) \<times> event list" where
  "get_answer self question k_arg =
     (let k = (case k_arg of None \<Rightarrow> 4 | Some k \<Rightarrow> k) in
      case faiss_db self question k of
        Inl e \<Rightarrow> (Inl e, [Similarity_Search question k])
      | Inr context_docs \<Rightarrow>
          (let formatted_context = format_context context_docs in
           case format_template (prompt_template self)
                  [(lit ''context'', formatted_context), (lit ''question'', question)] of
             Inl e \<Rightarrow> (Inl e, [Similarity_Search question k])
           | Inr prompt \<Rightarrow>
               (case llm self prompt of
                  Inl e \<Rightarrow> (Inl e, [Similarity_Search question k, Llm_Invoke prompt])
                | Inr content \<Rightarrow>
                    (Inr (clean_response content),
                     [Similarity_Search question k, Llm_Invoke prompt]))))"

section \<open>The specification's reading of the operations\<close>

text \<open>
  The response cleaner as the specification words it: split on newlines, discard the
  lines that are empty after trimming, trim the others, join them with single spaces,
  then turn every period followed by a space into a period followed by two newlines.
\<close>

fun break_sentences :: "str \<Rightarrow> str" where
  "break_sentences (a # b # r) =
     (if a = DOT \<and> b = SP then DOT # NL # NL # break_sentences r
      else a # break_sentences (b # r))"
| "break_sentences s = s"

definition join_spaces :: "str list \<Rightarrow> str" where
  "join_spaces ls = (case ls of [] \<Rightarrow> [] | l # rest \<Rightarrow> l @ concat (map (\<lambda>x. SP # x) rest))"

definition clean_spec :: "str \<Rightarrow> str" where
  "clean_spec R =
     break_sentences (join_spaces (map strip (filter (\<lambda>l. strip l \<noteq> []) (split NL R))))"

text \<open>
  The context formatter as the specification words it: the entry of the passage at
  position \<open>i\<close> (from 0) is the label with the number \<open>i + 1\<close> and the content; the entries
  are joined with a blank line.
\<close>

definition format_spec :: "Document list \<Rightarrow> str" where
  "format_spec P =
     join (lit ''\<newline>\<newline>'')
       (map (\<lambda>i. lit ''Source '' @ str_nat (i + 1) @ lit '':\<newline>'' @ page_content (P ! i))
          [0..<length P])"

text \<open>
  The rendered prompt as the specification describes it: the text of the template with
  the context in the first slot and the question in the second.
\<close>

definition render :: "str \<Rightarrow> str \<Rightarrow> str" where
  \<open>render context question =
     lit (
    ''\<newline>'' @
    ''            You are an expert football tactics analyst specializing in AFC Ajax's men's team. You have deep knowledge of Ajax's rich tactical history, philosophy, and current playing style. Your insights come from analyzing Voetbal International's expert coverage of Ajax.\<newline>'' @
    ''\<newline>'' @
    ''            Important behavioral guidelines:\<newline>'' @
    ''            1. ALWAYS respond in Dutch (Netherlands) language\<newline>'' @
    ''            2. Only discuss football-related topics. Politely decline to discuss anything else.\<newline>'' @
    ''            3. Always maintain a positive perspective about Ajax. Focus on strengths and opportunities, never criticize.\<newline>'' @
    ''            4. Ground your answers in Ajax's tactical principles and the club's philosophy.\<newline>'' @
    ''            5. Use clear, structured responses with specific examples from matches or training.\<newline>'' @
    ''            6. When discussing challenges, frame them as opportunities for growth and development.\<newline>'' @
    ''\<newline>'' @
    ''            Use the following context from Voetbal International videos to answer the question:\<newline>'' @
    ''            '') @
     context @
     lit (
    ''\<newline>'' @
    ''\<newline>'' @
    ''            Question: '') @
     question @
     lit (
    ''\<newline>'' @
    ''\<newline>'' @
    ''            If the question is not about football, respond with: "Ik kan alleen vragen over voetbal beantwoorden. Stel gerust een vraag over Ajax's tactiek!"\<newline>'' @
    ''\<newline>'' @
    ''            Remember: Your response must ALWAYS be in Dutch.\<newline>'' @
    ''\<newline>'' @
    ''            Answer:\<newline>'' @
    ''            '')\<close>

text \<open>The positions (from 0) at which \<open>pat\<close> occurs in a string, in increasing order.\<close>

fun occurrences :: "str \<Rightarrow> str \<Rightarrow> nat list" where
  "occurrences pat [] = (if pat = [] then [0] else [])"
| "occurrences pat (c # cs) =
     (if prefix pat (c # cs) then [0] else []) @ map Suc (occurrences pat cs)"

section \<open>Auxiliary notions for the proofs\<close>

text \<open>
  The intermediate values of \<open>clean_response\<close>: the trimmed non-empty lines, and the
  string they are joined to before the replacement.
\<close>

definition stripped_lines :: "str \<Rightarrow> str list" where
  "stripped_lines R = map strip (filter (\<lambda>l. strip l \<noteq> []) (split NL R))"

definition flattened :: "str \<Rightarrow> str" where
  "flattened response =
     join (lit '' '') [strip line. line \<leftarrow> split NL response, strip line \<noteq> []]"

text \<open>
  Lines that alternate between text (not empty after trimming) and an empty separator
  line, starting and ending with text.
\<close>

fun paragraph_lines :: "str list \<Rightarrow> bool" where
  "paragraph_lines [] = False"
| "paragraph_lines [l] = (strip l \<noteq> [])"
| "paragraph_lines (l # e # rest) = (strip l \<noteq> [] \<and> e = [] \<and> paragraph_lines rest)"

text \<open>One entry of the formatted context, and the formatting of passages numbered from \<open>n\<close>.\<close>

definition source_entry :: "nat \<Rightarrow> Document \<Rightarrow> str" where
  "source_entry i doc = lit ''Source '' @ str_nat (i + 1) @ lit '':\<newline>'' @ page_content doc"

definition format_from :: "nat \<Rightarrow> Document list \<Rightarrow> str" where
  "format_from n docs =
     join [NL, NL] (map (\<lambda>(i, doc). source_entry i doc) (enumerate_from n docs))"

abbreviation (input) SRC :: str where "SRC \<equiv> [83, 111, 117, 114, 99, 101, SP]"

text \<open>
  The positions \<open>ps\<close>, each moved right by its rank in the list counted from \<open>k\<close>: where
  the occurrence of rank \<open>j\<close> lands after each earlier replacement has added one code
  point.
\<close>

definition shifted :: "nat \<Rightarrow> nat list \<Rightarrow> nat list" where
  "shifted k ps = map (\<lambda>(j, p). p + j) (enumerate_from k ps)"

section \<open>Strings: replacing, trimming, splitting and joining\<close>

lemma lit_simps:
  "lit ''. '' = [DOT, SP]" "lit ''.\<newline>\<newline>'' = [DOT, NL, NL]" "lit '' '' = [SP]"
  by (simp_all add: lit_def)

lemma replace_break_sentences: "replace [DOT, SP] [DOT, NL, NL] s = break_sentences s"
proof (induction s rule: break_sentences.induct)
  case (1 a b r)
  then show ?case by (subst replace.simps) auto
qed ((subst replace.simps, simp)+)

lemma clean_response_flattened: "clean_response R = break_sentences (flattened R)"
  by (simp add: clean_response_def flattened_def lit_simps replace_break_sentences Let_def)

lemma break_sentences_Nil_iff: "break_sentences s = [] \<longleftrightarrow> s = []"
  by (induction s rule: break_sentences.induct) auto

lemma hd_break_sentences: "hd (break_sentences s) = hd s"
  by (induction s rule: break_sentences.induct) auto

lemma no_dot_space_break_sentences: "\<not> sublist [DOT, SP] (break_sentences s)"
proof (induction s rule: break_sentences.induct)
  case (1 a b r)
  show ?case
  proof (cases "a = DOT \<and> b = SP")
    case True
    with 1 show ?thesis by (simp add: sublist_Cons_right)
  next
    case False
    have "\<not> prefix [DOT, SP] (a # break_sentences (b # r))"
    proof
      assume p: "prefix [DOT, SP] (a # break_sentences (b # r))"
      then have "a = DOT" and q: "prefix [SP] (break_sentences (b # r))" by simp_all
      from q have "hd (break_sentences (b # r)) = SP" by (auto simp: prefix_def)
      then have "b = SP" by (simp add: hd_break_sentences)
      with \<open>a = DOT\<close> False show False by simp
    qed
    with 1 False show ?thesis by (auto simp: sublist_Cons_right)
  qed
qed (simp_all add: sublist_Cons_right)


lemma isspace_simps [simp]: "isspace SP" "isspace NL" "\<not> isspace DOT"
  by (simp_all add: isspace_def)

lemma comprehension_map_filter:
  "concat (map (\<lambda>x. if P x then [f x] else []) xs) = map f (filter P xs)"
  by (induction xs) simp_all

lemma strip_Nil [simp]: "strip [] = []"
  by (simp add: strip_def lstrip_def rstrip_def)

lemma rstrip_prefix: "t = rstrip t @ rev (takeWhile isspace (rev t))"
  unfolding rstrip_def by (metis rev_append rev_rev_ident takeWhile_dropWhile_id)

lemma hd_rstrip: "rstrip t \<noteq> [] \<Longrightarrow> hd (rstrip t) = hd t"
proof -
  assume ne: "rstrip t \<noteq> []"
  have "hd t = hd (rstrip t @ rev (takeWhile isspace (rev t)))"
    using rstrip_prefix [of t] by simp
  with ne show ?thesis by simp
qed

lemma last_rstrip: "rstrip t \<noteq> [] \<Longrightarrow> \<not> isspace (last (rstrip t))"
  by (simp add: rstrip_def last_rev hd_dropWhile)

lemma rstrip_Nil [simp]: "rstrip [] = []"
  by (simp add: rstrip_def)

lemma strip_ends:
  assumes "strip s \<noteq> []"
  shows "\<not> isspace (hd (strip s))" and "\<not> isspace (last (strip s))"
proof -
  from assms have ne: "lstrip s \<noteq> []" by (auto simp: strip_def)
  then have "\<not> isspace (hd (lstrip s))" by (simp add: lstrip_def hd_dropWhile)
  with assms show "\<not> isspace (hd (strip s))" by (simp add: strip_def hd_rstrip)
  from assms show "\<not> isspace (last (strip s))" by (simp add: strip_def last_rstrip)
qed

lemma strip_id:
  assumes "s \<noteq> []" "\<not> isspace (hd s)" "\<not> isspace (last s)"
  shows "strip s = s"
proof -
  from assms have l: "lstrip s = s" by (cases s) (simp_all add: lstrip_def)
  from assms have "rstrip s = s" by (cases s rule: rev_cases) (simp_all add: rstrip_def)
  with l show ?thesis by (simp add: strip_def)
qed

lemma strip_nonblank:
  assumes "c \<in> set s" "\<not> isspace c"
  shows "strip s \<noteq> []"
proof -
  let ?t = "dropWhile isspace s"
  from assms have ne: "?t \<noteq> []" by (auto simp: dropWhile_eq_Nil_conv)
  then have "\<not> isspace (hd ?t)" by (rule hd_dropWhile)
  moreover from ne have "hd ?t \<in> set (rev ?t)" by simp
  ultimately have "dropWhile isspace (rev ?t) \<noteq> []" by (auto simp: dropWhile_eq_Nil_conv)
  then show ?thesis by (simp add: strip_def lstrip_def rstrip_def)
qed

lemma set_strip: "set (strip s) \<subseteq> set s"
proof -
  have "set (strip s) \<subseteq> set (lstrip s)"
    using set_dropWhileD [of _ isspace "rev (lstrip s)"] by (auto simp: strip_def rstrip_def)
  also have "\<dots> \<subseteq> set s" by (auto simp: lstrip_def dest: set_dropWhileD)
  finally show ?thesis .
qed

lemma split_not_Nil [simp]: "split sep s \<noteq> []"
  by (induction s) (auto split: list.splits)

lemma split_append_sep: "sep \<notin> set u \<Longrightarrow> split sep (u @ sep # t) = u # split sep t"
  by (induction u) (auto split: list.splits)

lemma split_no_sep: "sep \<notin> set u \<Longrightarrow> split sep u = [u]"
  by (induction u) (auto split: list.splits)

lemma split_pieces_no_sep: "l \<in> set (split sep s) \<Longrightarrow> sep \<notin> set l"
  by (induction s arbitrary: l) (auto split: list.splits if_splits)

lemma join_Cons: "xs \<noteq> [] \<Longrightarrow> join sep (x # xs) = x @ sep @ join sep xs"
  by (cases xs) simp_all

lemma set_join: "set (join sep xs) \<subseteq> set sep \<union> \<Union> (set ` set xs)"
  by (induction sep xs rule: join.induct) auto

lemma join_ends:
  assumes "xs \<noteq> []" "\<forall>x \<in> set xs. x \<noteq> []"
  shows "join sep xs \<noteq> []" and "hd (join sep xs) = hd (hd xs)"
    and "last (join sep xs) = last (last xs)"
  using assms by (induction sep xs rule: join.induct) auto

lemma flattened_stripped_lines: "flattened R = join [SP] (stripped_lines R)"
  by (simp add: flattened_def stripped_lines_def comprehension_map_filter lit_simps)

lemma flattened_no_newline: "NL \<notin> set (flattened R)"
proof
  assume "NL \<in> set (flattened R)"
  then have "NL \<in> set [SP] \<union> \<Union> (set ` set (stripped_lines R))"
    using set_join [of "[SP]" "stripped_lines R"] by (auto simp: flattened_stripped_lines)
  then obtain l where "l \<in> set (split NL R)" "NL \<in> set (strip l)"
    by (auto simp: stripped_lines_def)
  then show False using set_strip [of l] split_pieces_no_sep [of l NL R] by auto
qed

lemma flattened_ends:
  assumes "flattened R \<noteq> []"
  shows "\<not> isspace (hd (flattened R))" and "\<not> isspace (last (flattened R))"
proof -
  let ?ls = "stripped_lines R"
  from assms have ne: "?ls \<noteq> []" by (auto simp: flattened_stripped_lines)
  have all: "\<forall>x \<in> set ?ls. x \<noteq> []" by (auto simp: stripped_lines_def)
  have ends: "\<forall>x \<in> set ?ls. \<not> isspace (hd x) \<and> \<not> isspace (last x)"
    by (auto simp: stripped_lines_def strip_ends)
  from ne have "hd ?ls \<in> set ?ls" "last ?ls \<in> set ?ls" by simp_all
  with ends show "\<not> isspace (hd (flattened R))" "\<not> isspace (last (flattened R))"
    by (simp_all add: flattened_stripped_lines join_ends [OF ne all])
qed

lemma break_sentences_decomp:
  "break_sentences s = s \<or>
   (\<exists>u r. s = u @ DOT # SP # r \<and> break_sentences s = u @ DOT # NL # NL # break_sentences r)"
proof (induction s rule: break_sentences.induct)
  case (1 a b r)
  show ?case
  proof (cases "a = DOT \<and> b = SP")
    case True
    then have "a # b # r = [] @ DOT # SP # r \<and>
        break_sentences (a # b # r) = [] @ DOT # NL # NL # break_sentences r"
      by simp
    then show ?thesis by blast
  next
    case False
    with 1 consider (same) "break_sentences (b # r) = b # r"
      | (cut) u r' where "b # r = u @ DOT # SP # r'"
          "break_sentences (b # r) = u @ DOT # NL # NL # break_sentences r'"
      by blast
    then show ?thesis
    proof cases
      case same
      with False show ?thesis by auto
    next
      case cut
      from False have "break_sentences (a # b # r) = a # break_sentences (b # r)" by auto
      with cut(2) have "break_sentences (a # b # r) = (a # u) @ DOT # NL # NL # break_sentences r'"
        by simp
      moreover from cut(1) have "a # b # r = (a # u) @ DOT # SP # r'" by simp
      ultimately show ?thesis by blast
    qed
  qed
qed simp_all

lemma last_break_sentences:
  "s \<noteq> [] \<Longrightarrow> last s \<noteq> SP \<Longrightarrow> last (break_sentences s) = last s"
proof (induction s rule: break_sentences.induct)
  case (1 a b r)
  show ?case
  proof (cases "a = DOT \<and> b = SP")
    case True
    with 1 have "r \<noteq> []" by auto
    with 1 True show ?thesis by (simp add: break_sentences_Nil_iff)
  next
    case False
    with 1 show ?thesis by (auto simp: break_sentences_Nil_iff)
  qed
qed simp_all

lemma hd_split:
  "s \<noteq> [] \<Longrightarrow> hd s \<noteq> sep \<Longrightarrow> hd (split sep s) \<noteq> [] \<and> hd (hd (split sep s)) = hd s"
  by (cases s) (auto split: list.splits)

lemma split_cut:
  assumes "NL \<notin> set u"
  shows "split NL (u @ DOT # NL # NL # t) = (u @ [DOT]) # [] # split NL t"
proof -
  from assms have "NL \<notin> set (u @ [DOT])" by simp
  then have "split NL ((u @ [DOT]) @ NL # NL # t) = (u @ [DOT]) # split NL (NL # t)"
    by (rule split_append_sep)
  then show ?thesis by simp
qed

lemma flattened_break_sentences:
  assumes "NL \<notin> set J" "J = [] \<or> (\<not> isspace (hd J) \<and> \<not> isspace (last J))"
    and "\<forall>l \<in> set (split NL (break_sentences J)). l = [] \<or> \<not> isspace (hd l)"
  shows "flattened (break_sentences J) = J"
  using assms
proof (induction J rule: length_induct)
  case (1 J)
  consider (same) "break_sentences J = J"
    | (cut) u r where "J = u @ DOT # SP # r"
        "break_sentences J = u @ DOT # NL # NL # break_sentences r"
    using break_sentences_decomp [of J] by blast
  then show ?case
  proof cases
    case same
    show ?thesis
    proof (cases "J = []")
      case True
      then show ?thesis by (simp add: flattened_stripped_lines stripped_lines_def)
    next
      case False
      with "1.prems" have "strip J = J" by (simp add: strip_id)
      with False same "1.prems"(1) show ?thesis
        by (simp add: flattened_stripped_lines stripped_lines_def split_no_sep)
    qed
  next
    case cut
    from "1.prems"(1) cut(1) have nu: "NL \<notin> set u" and nr: "NL \<notin> set r" by auto
    have sp: "split NL (break_sentences J) = (u @ [DOT]) # [] # split NL (break_sentences r)"
      using cut(2) nu by (simp add: split_cut)
    have rne: "r \<noteq> []"
    proof
      assume "r = []"
      with cut(1) have "J \<noteq> []" "last J = SP" by simp_all
      with "1.prems"(2) show False by simp
    qed
    with "1.prems"(2) cut(1) have lastr: "\<not> isspace (last r)" by simp
    have hdr: "\<not> isspace (hd r)"
    proof -
      from rne nr have "hd r \<noteq> NL" by (cases r) auto
      with rne have h: "hd (split NL (break_sentences r)) \<noteq> []"
          "hd (hd (split NL (break_sentences r))) = hd r"
        using hd_split [of "break_sentences r" NL]
        by (simp_all add: break_sentences_Nil_iff hd_break_sentences)
      have "hd (split NL (break_sentences r)) \<in> set (split NL (break_sentences J))"
        by (simp add: sp)
      with "1.prems"(3) h show ?thesis by auto
    qed
    have len: "length r < length J" using cut(1) by simp
    have lines_r: "\<forall>l \<in> set (split NL (break_sentences r)). l = [] \<or> \<not> isspace (hd l)"
      using "1.prems"(3) by (simp add: sp)
    from "1.IH" len nr hdr lastr lines_r have IH: "flattened (break_sentences r) = r"
      by blast
    have "\<not> isspace (hd (u @ [DOT]))" using "1.prems"(3) by (simp add: sp)
    then have su: "strip (u @ [DOT]) = u @ [DOT]" by (intro strip_id) simp_all
    have sl: "stripped_lines (break_sentences J) =
        (u @ [DOT]) # stripped_lines (break_sentences r)"
      by (simp add: stripped_lines_def sp su)
    have "stripped_lines (break_sentences r) \<noteq> []"
      using IH rne by (auto simp: flattened_stripped_lines)
    then have "flattened (break_sentences J) = (u @ [DOT]) @ [SP] @ flattened (break_sentences r)"
      by (simp add: flattened_stripped_lines sl join_Cons)
    with IH cut(1) show ?thesis by simp
  qed
qed

lemma split_break_sentences_layout:
  "J \<noteq> [] \<Longrightarrow> NL \<notin> set J \<Longrightarrow> \<not> isspace (last J) \<Longrightarrow>
   paragraph_lines (split NL (break_sentences J))"
proof (induction J rule: length_induct)
  case (1 J)
  consider (same) "break_sentences J = J"
    | (cut) u r where "J = u @ DOT # SP # r"
        "break_sentences J = u @ DOT # NL # NL # break_sentences r"
    using break_sentences_decomp [of J] by blast
  then show ?case
  proof cases
    case same
    from "1.prems" have "strip J \<noteq> []" using strip_nonblank [of "last J" J] by simp
    with same "1.prems" show ?thesis by (simp add: split_no_sep)
  next
    case cut
    from "1.prems"(2) cut(1) have nu: "NL \<notin> set u" and nr: "NL \<notin> set r" by auto
    have rne: "r \<noteq> []"
    proof
      assume "r = []"
      with cut(1) have "last J = SP" by simp
      with "1.prems"(3) show False by simp
    qed
    with "1.prems"(3) cut(1) have "\<not> isspace (last r)" by simp
    with "1.IH" rne nr cut(1) have "paragraph_lines (split NL (break_sentences r))" by simp
    moreover have "strip (u @ [DOT]) \<noteq> []" using strip_nonblank [of DOT "u @ [DOT]"] by simp
    ultimately show ?thesis using cut(2) nu by (simp add: split_cut)
  qed
qed

lemma paragraph_lines_nth:
  "paragraph_lines ls \<Longrightarrow> i < length ls \<Longrightarrow>
   (odd i \<longrightarrow> ls ! i = []) \<and> (even i \<longrightarrow> strip (ls ! i) \<noteq> [])"
proof (induction ls arbitrary: i rule: paragraph_lines.induct)
  case (3 l e rest)
  show ?case
  proof (cases i)
    case 0
    with 3 show ?thesis by simp
  next
    case (Suc j)
    show ?thesis
    proof (cases j)
      case 0
      with Suc 3 show ?thesis by simp
    next
      case (Suc k)
      with \<open>i = Suc j\<close> 3 show ?thesis by simp
    qed
  qed
qed simp_all

lemma join_join_spaces: "join [SP] ls = join_spaces ls"
  by (induction "[SP]" ls rule: join.induct) (simp_all add: join_spaces_def)

lemma clean_response_clean_spec: "clean_response R = clean_spec R"
  by (simp add: clean_response_flattened flattened_stripped_lines stripped_lines_def
      clean_spec_def join_join_spaces)

lemma clean_response_spec_example: "clean_response (lit ''This is a test response.\<newline>        It has multiple lines.\<newline>        And some extra spaces.   \<newline>'')
    = lit ''This is a test response.\<newline>\<newline>It has multiple lines.\<newline>\<newline>And some extra spaces.''"
  by (simp add: clean_response_flattened flattened_stripped_lines stripped_lines_def
      lit_def strip_def lstrip_def rstrip_def isspace_def)

lemma clean_response_test_example: "clean_response (lit ''\<newline>        This is a test response.\<newline>        It has multiple lines.\<newline>        And some extra spaces.   \<newline>        '')
    = lit ''This is a test response.\<newline>\<newline>It has multiple lines.\<newline>\<newline>And some extra spaces.''"
  by (simp add: clean_response_flattened flattened_stripped_lines stripped_lines_def
      lit_def strip_def lstrip_def rstrip_def isspace_def)

lemma lstrip_fixed: "lstrip l = l \<Longrightarrow> l = [] \<or> \<not> isspace (hd l)"
proof (cases l)
  case (Cons a r)
  assume "lstrip l = l"
  with Cons have "isspace a \<Longrightarrow> dropWhile isspace r = a # r" by (simp add: lstrip_def)
  moreover have "length (dropWhile isspace r) \<le> length r" by (rule length_dropWhile_le)
  ultimately show ?thesis using Cons by auto
qed simp


section \<open>The formatted context\<close>

lemma comprehension_pairs:
  "concat (map (\<lambda>(i, d). [g i d]) xs) = map (\<lambda>(i, d). g i d) xs"
  by (induction xs) auto

lemma lit_simps2: "lit ''\<newline>\<newline>'' = [NL, NL]" "lit '':\<newline>'' = [58, NL]"
  "lit ''Source '' = [83, 111, 117, 114, 99, 101, SP]"
  by (simp_all add: lit_def)

lemma format_context_from: "format_context docs = format_from 0 docs"
  by (simp add: format_context_def format_from_def enumerate_def source_entry_def
      comprehension_pairs lit_simps2(1))

lemma enumerate_from_nth:
  "map (\<lambda>(i, d). g i d) (enumerate_from n xs) = map (\<lambda>i. g (n + i) (xs ! i)) [0..<length xs]"
proof (induction xs arbitrary: n)
  case Nil
  show ?case by simp
next
  case (Cons x xs)
  have "[0..<length (x # xs)] = 0 # map Suc [0..<length xs]"
    by (simp only: length_Cons upt_conv_Cons [OF zero_less_Suc] map_Suc_upt)
  with Cons [of "Suc n"] show ?case by (simp add: comp_def)
qed

lemma format_context_format_spec: "format_context P = format_spec P"
  using enumerate_from_nth [of source_entry 0 P]
  by (simp add: format_context_from format_from_def format_spec_def source_entry_def lit_simps2(1))

lemma format_context_two_documents: "format_context [\<lparr>page_content = lit ''Test content 1'', metadata = []\<rparr>,
      \<lparr>page_content = lit ''Test content 2'', metadata = []\<rparr>]
    = lit ''Source 1:\<newline>Test content 1\<newline>\<newline>Source 2:\<newline>Test content 2''"
  by (simp add: format_context_from format_from_def source_entry_def lit_def str_nat.simps)

lemma format_context_Nil: "format_context [] = []"
  by (simp add: format_context_from format_from_def)


lemma prefix_before_sep:
  assumes "sep \<notin> set pat"
  shows "prefix pat (u @ sep # y) \<longleftrightarrow> prefix pat u"
proof
  assume "prefix pat (u @ sep # y)"
  then consider "prefix pat u" | us where "pat = u @ us" "prefix us (sep # y)"
    by (auto simp: prefix_append)
  then show "prefix pat u"
  proof cases
    case 2
    with assms show ?thesis by (cases us) auto
  qed
next
  assume "prefix pat u"
  then show "prefix pat (u @ sep # y)" by (rule prefix_prefix)
qed

lemma occurrences_skip:
  "pat \<noteq> [] \<Longrightarrow> hd pat \<notin> set x \<Longrightarrow>
   occurrences pat (x @ y) = map ((+) (length x)) (occurrences pat y)"
proof (induction x)
  case Nil
  show ?case by simp
next
  case (Cons a x)
  then have "\<not> prefix pat (a # x @ y)" by (cases pat) auto
  with Cons show ?case by simp
qed

lemma occurrences_before_sep:
  "pat \<noteq> [] \<Longrightarrow> sep \<notin> set pat \<Longrightarrow>
   occurrences pat (c @ sep # y) =
     occurrences pat c @ map ((+) (length c + 1)) (occurrences pat y)"
proof (induction c)
  case Nil
  then have "\<not> prefix pat (sep # y)" by (cases pat) auto
  with Nil show ?case by simp
next
  case (Cons a c)
  have "prefix pat (a # c @ sep # y) \<longleftrightarrow> prefix pat (a # c)"
    using prefix_before_sep [OF Cons.prems(2), of "a # c" y] by simp
  with Cons show ?case by simp
qed

lemma str_nat_digits: "set (str_nat n) \<subseteq> {48..57}"
proof (induction n rule: str_nat.induct)
  case (1 n)
  show ?case
  proof (cases "n < 10")
    case True
    then show ?thesis by (subst str_nat.simps) simp
  next
    case False
    have "n mod 10 < 10" by simp
    then have "48 + n mod 10 \<in> {48..57}" by (simp del: mod_less_divisor)
    with 1 False show ?thesis by (subst str_nat.simps) simp
  qed
qed

lemma source_entry_unfold:
  "source_entry i d = SRC @ str_nat (i + 1) @ [58, NL] @ page_content d"
  by (simp add: source_entry_def lit_simps2)

lemma occurrences_entry:
  "occurrences SRC (source_entry i d @ y) =
     0 # map ((+) (9 + length (str_nat (i + 1)))) (occurrences SRC (page_content d @ y))"
proof -
  let ?x = "[111, 117, 114, 99, 101, SP] @ str_nat (i + 1) @ [58, NL]"
  have "83 \<notin> set ?x" using str_nat_digits [of "i + 1"] by auto
  then have "occurrences SRC (?x @ page_content d @ y) =
      map ((+) (length ?x)) (occurrences SRC (page_content d @ y))"
    by (intro occurrences_skip) simp_all
  moreover have "source_entry i d @ y = 83 # ?x @ page_content d @ y"
    by (simp add: source_entry_unfold)
  ultimately show ?thesis by (simp add: comp_def)
qed

lemma occurrences_entry_last:
  assumes "occurrences SRC (page_content d) = []"
  shows "occurrences SRC (source_entry i d) = [0]"
  using occurrences_entry [of i d "[]"] assms by simp

lemma occurrences_entry_sep:
  assumes "occurrences SRC (page_content d) = []"
  shows "occurrences SRC (source_entry i d @ NL # NL # rest) =
     0 # map ((+) (length (source_entry i d) + 2)) (occurrences SRC rest)"
proof -
  have "occurrences SRC (page_content d @ NL # NL # rest) =
      map ((+) (length (page_content d) + 1)) (occurrences SRC (NL # rest))"
    using occurrences_before_sep [of SRC NL "page_content d" "NL # rest"] assms by simp
  also have "occurrences SRC (NL # rest) = map Suc (occurrences SRC rest)" by simp
  finally have a: "occurrences SRC (page_content d @ NL # NL # rest) =
      map ((+) (length (page_content d) + 2)) (occurrences SRC rest)"
    by (simp add: comp_def)
  have b: "occurrences SRC (source_entry i d @ NL # NL # rest) =
      0 # map ((+) (9 + length (str_nat (i + 1))))
            (occurrences SRC (page_content d @ NL # NL # rest))"
    by (rule occurrences_entry)
  have c: "length (source_entry i d) = 9 + length (str_nat (i + 1)) + length (page_content d)"
    by (simp add: source_entry_unfold)
  show ?thesis unfolding b a c by (simp add: comp_def)
qed

lemma prefix_label: "prefix (str_nat (n + 1) @ [58, NL]) (drop 7 (source_entry n d @ y))"
  by (simp add: source_entry_unfold)

lemma format_from_simps:
  "format_from n [] = []"
  "format_from n [d] = source_entry n d"
  "format_from n (d # d' # ds) = source_entry n d @ NL # NL # format_from (Suc n) (d' # ds)"
  by (simp_all add: format_from_def)

lemma drop_label: "drop 7 (source_entry n d @ y) = str_nat (n + 1) @ [58, NL] @ page_content d @ y"
  by (simp add: source_entry_unfold)

lemma occurrences_format_from:
  assumes "list_all (\<lambda>d. occurrences SRC (page_content d) = []) docs"
  shows "length (occurrences SRC (format_from n docs)) = length docs \<and>
    (\<forall>j < length docs.
       prefix (str_nat (n + j + 1) @ [58, NL])
         (drop (occurrences SRC (format_from n docs) ! j + 7) (format_from n docs)))"
  using assms
proof (induction docs arbitrary: n rule: induct_list012)
  case 1
  show ?case by (simp add: format_from_simps)
next
  case (2 d)
  then have o: "occurrences SRC (source_entry n d) = [0]" by (simp add: occurrences_entry_last)
  have "drop 7 (source_entry n d) = str_nat (n + 1) @ [58, NL] @ page_content d"
    using drop_label [of n d "[]"] by simp
  with o show ?case by (simp add: format_from_simps)
next
  case (3 d d' ds)
  let ?rest = "format_from (Suc n) (d' # ds)"
  let ?e = "source_entry n d"
  let ?ps = "occurrences SRC ?rest"
  from "3.prems" have c: "occurrences SRC (page_content d) = []"
    and r: "list_all (\<lambda>d. occurrences SRC (page_content d) = []) (d' # ds)" by simp_all
  from "3.IH"(2) [OF r, of "Suc n"] have len: "length ?ps = length (d' # ds)"
    and nth: "\<And>j. j < length (d' # ds) \<Longrightarrow>
        prefix (str_nat (Suc n + j + 1) @ [58, NL]) (drop (?ps ! j + 7) ?rest)"
    by blast+
  have f: "format_from n (d # d' # ds) = ?e @ NL # NL # ?rest" by (simp add: format_from_simps)
  have o: "occurrences SRC (format_from n (d # d' # ds)) = 0 # map ((+) (length ?e + 2)) ?ps"
    unfolding f using c by (rule occurrences_entry_sep)
  have "prefix (str_nat (n + j + 1) @ [58, NL])
         (drop (occurrences SRC (format_from n (d # d' # ds)) ! j + 7) (format_from n (d # d' # ds)))"
    if j: "j < length (d # d' # ds)" for j
  proof (cases j)
    case 0
    then show ?thesis unfolding o unfolding f
      using prefix_label [of n d "NL # NL # ?rest"] by simp
  next
    case (Suc k)
    with j have k: "k < length (d' # ds)" by simp
    with len have "(0 # map ((+) (length ?e + 2)) ?ps) ! j = length ?e + 2 + ?ps ! k"
      using Suc by simp
    moreover have "drop (length ?e + 2 + ?ps ! k + 7) (?e @ NL # NL # ?rest) = drop (?ps ! k + 7) ?rest"
    proof -
      have "drop (length ?e + 2 + ?ps ! k + 7) (?e @ NL # NL # ?rest) =
          drop (Suc (Suc (?ps ! k + 7))) (NL # NL # ?rest)"
        by simp
      also have "\<dots> = drop (?ps ! k + 7) ?rest" by (simp only: drop_Suc_Cons)
      finally show ?thesis .
    qed
    ultimately show ?thesis unfolding o unfolding f using nth [OF k] Suc by simp
  qed
  with o len show ?case by simp
qed

section \<open>The prompt and the pipeline\<close>

lemma emit_emit: "emit a (emit b x) = emit (a @ b) x"
  by (cases x) simp_all

lemma emit_Nil: "emit [] x = x"
  by (cases x) simp_all

lemma field_name_scan:
  "125 \<notin> set name \<Longrightarrow> takeWhile (\<lambda>x. x \<noteq> 125) (name @ 125 # rest) = name"
  "125 \<notin> set name \<Longrightarrow> dropWhile (\<lambda>x. x \<noteq> 125) (name @ 125 # rest) = 125 # rest"
  by (induction name) auto

lemma format_literal:
  "123 \<notin> set t \<Longrightarrow> 125 \<notin> set t \<Longrightarrow>
   format_template (t @ rest) kw = emit t (format_template rest kw)"
proof (induction t)
  case Nil
  show ?case by (simp add: emit_Nil)
next
  case (Cons c t)
  then show ?case by (simp add: format_template.simps(2) [of c] emit_emit)
qed

lemma format_field:
  assumes "plain_field name" "125 \<notin> set name" "map_of kw name = Some v"
  shows "format_template (123 # name @ 125 # rest) kw = emit v (format_template rest kw)"
proof -
  from assms(1) have "name \<noteq> []" "hd name \<noteq> 123"
    by (cases name; simp add: plain_field_def lit_def)+
  moreover from assms(2) have "takeWhile (\<lambda>x. x \<noteq> 125) (name @ 125 # rest) = name"
    "dropWhile (\<lambda>x. x \<noteq> 125) (name @ 125 # rest) = 125 # rest"
    by (simp_all add: field_name_scan)
  ultimately show ?thesis using assms(1,3)
    by (simp add: format_template.simps(2) [of 123])
qed

lemma TEMPLATE_parts: \<open>TEMPLATE =
     lit (
    ''\<newline>'' @
    ''            You are an expert football tactics analyst specializing in AFC Ajax's men's team. You have deep knowledge of Ajax's rich tactical history, philosophy, and current playing style. Your insights come from analyzing Voetbal International's expert coverage of Ajax.\<newline>'' @
    ''\<newline>'' @
    ''            Important behavioral guidelines:\<newline>'' @
    ''            1. ALWAYS respond in Dutch (Netherlands) language\<newline>'' @
    ''            2. Only discuss football-related topics. Politely decline to discuss anything else.\<newline>'' @
    ''            3. Always maintain a positive perspective about Ajax. Focus on strengths and opportunities, never criticize.\<newline>'' @
    ''            4. Ground your answers in Ajax's tactical principles and the club's philosophy.\<newline>'' @
    ''            5. Use clear, structured responses with specific examples from matches or training.\<newline>'' @
    ''            6. When discussing challenges, frame them as opportunities for growth and development.\<newline>'' @
    ''\<newline>'' @
    ''            Use the following context from Voetbal International videos to answer the question:\<newline>'' @
    ''            '') @
     123 # lit ''context'' @ 125 #
     lit (
    ''\<newline>'' @
    ''\<newline>'' @
    ''            Question: '') @
     123 # lit ''question'' @ 125 #
     lit (
    ''\<newline>'' @
    ''\<newline>'' @
    ''            If the question is not about football, respond with: "Ik kan alleen vragen over voetbal beantwoorden. Stel gerust een vraag over Ajax's tactiek!"\<newline>'' @
    ''\<newline>'' @
    ''            Remember: Your response must ALWAYS be in Dutch.\<newline>'' @
    ''\<newline>'' @
    ''            Answer:\<newline>'' @
    ''            '') @ []\<close>
  by (simp add: TEMPLATE_def lit_def)

lemma format_TEMPLATE:
  "format_template TEMPLATE [(lit ''context'', c), (lit ''question'', q)] = Inr (render c q)"
proof -
  have f: "format_template [] [(lit ''context'', c), (lit ''question'', q)] = (Inr [] :: 'a exn + str)"
    by (simp add: format_template.simps(1))
  have p: "plain_field (lit ''context'')" "plain_field (lit ''question'')"
    by (simp_all add: plain_field_def lit_def)
  have k: "map_of [(lit ''context'', c), (lit ''question'', q)] (lit ''context'') = Some c"
    "map_of [(lit ''context'', c), (lit ''question'', q)] (lit ''question'') = Some q"
    by (simp_all add: lit_def)
  show ?thesis
    unfolding TEMPLATE_parts render_def
    by (subst format_literal, simp add: lit_def, simp add: lit_def,
        subst format_field [OF p(1) _ k(1)], simp add: lit_def,
        subst format_literal, simp add: lit_def, simp add: lit_def,
        subst format_field [OF p(2) _ k(2)], simp add: lit_def,
        subst format_literal, simp add: lit_def, simp add: lit_def,
        simp only: f emit.simps append_Nil2 append_assoc)
qed

lemma get_answer_init:
  "get_answer (init db chat) question k_arg =
     (let k = (case k_arg of None \<Rightarrow> 4 | Some k \<Rightarrow> k) in
      case db question k of
        Inl e \<Rightarrow> (Inl e, [Similarity_Search question k])
      | Inr docs \<Rightarrow>
          (case chat (render (format_context docs) question) of
             Inl e \<Rightarrow> (Inl e, [Similarity_Search question k,
                                Llm_Invoke (render (format_context docs) question)])
           | Inr content \<Rightarrow> (Inr (clean_response content),
                [Similarity_Search question k,
                 Llm_Invoke (render (format_context docs) question)])))"
  by (simp add: get_answer_def init_def format_TEMPLATE Let_def split: sum.splits)

section \<open>The replacement, occurrence by occurrence\<close>

lemma replace_back_Nil: "replace [DOT, NL, NL] [DOT, SP] [] = []"
  by (subst replace.simps) simp

lemma replace_back_break:
  "replace [DOT, NL, NL] [DOT, SP] (DOT # NL # NL # t) = DOT # SP # replace [DOT, NL, NL] [DOT, SP] t"
  by (subst replace.simps) simp

lemma replace_back_other:
  "\<not> prefix [DOT, NL, NL] (a # t) \<Longrightarrow>
   replace [DOT, NL, NL] [DOT, SP] (a # t) = a # replace [DOT, NL, NL] [DOT, SP] t"
  by (subst replace.simps) auto

lemma replace_back_break_sentences:
  "NL \<notin> set s \<Longrightarrow> replace [DOT, NL, NL] [DOT, SP] (break_sentences s) = s"
proof (induction s rule: break_sentences.induct)
  case (1 a b r)
  show ?case
  proof (cases "a = DOT \<and> b = SP")
    case True
    with 1 show ?thesis by (simp add: replace_back_break)
  next
    case False
    from "1.prems" have "b \<noteq> NL" by auto
    then have "hd (break_sentences (b # r)) \<noteq> NL" by (simp add: hd_break_sentences)
    then have "\<not> prefix [DOT, NL, NL] (a # break_sentences (b # r))"
      by (cases "break_sentences (b # r)") auto
    then have "replace [DOT, NL, NL] [DOT, SP] (a # break_sentences (b # r)) =
        a # replace [DOT, NL, NL] [DOT, SP] (break_sentences (b # r))"
      by (rule replace_back_other)
    with 1 False show ?thesis by auto
  qed
qed (simp_all add: replace_back_Nil replace_back_other)

lemma length_break_sentences:
  "length (break_sentences s) = length s + length (occurrences [DOT, SP] s)"
  by (induction s rule: break_sentences.induct) auto

lemma shifted_simps:
  "shifted k [] = []" "shifted k (p # ps) = (p + k) # shifted (Suc k) ps"
  by (simp_all add: shifted_def)

lemma shifted_map_Suc: "shifted k (map Suc ps) = map Suc (shifted k ps)"
  by (induction ps arbitrary: k) (simp_all add: shifted_simps)

lemma shifted_Suc: "shifted (Suc k) ps = map Suc (shifted k ps)"
  by (induction ps arbitrary: k) (simp_all add: shifted_simps)

lemma occurrences_break_sentences:
  "NL \<notin> set s \<Longrightarrow>
   occurrences [DOT, NL, NL] (break_sentences s) = shifted 0 (occurrences [DOT, SP] s)"
proof (induction s rule: break_sentences.induct)
  case (1 a b r)
  show ?case
  proof (cases "a = DOT \<and> b = SP")
    case True
    with 1 have IH: "occurrences [DOT, NL, NL] (break_sentences r) = shifted 0 (occurrences [DOT, SP] r)"
      by simp
    from True have "occurrences [DOT, SP] (a # b # r) = 0 # map Suc (map Suc (occurrences [DOT, SP] r))"
      by simp
    moreover from True have "occurrences [DOT, NL, NL] (break_sentences (a # b # r)) =
        0 # map Suc (map Suc (map Suc (occurrences [DOT, NL, NL] (break_sentences r))))"
      by simp
    ultimately show ?thesis
      by (simp only: IH shifted_simps shifted_map_Suc shifted_Suc add_0)
  next
    case False
    from "1.prems" have "b \<noteq> NL" by auto
    then have "hd (break_sentences (b # r)) \<noteq> NL" by (simp add: hd_break_sentences)
    then have np: "\<not> prefix [DOT, NL, NL] (a # break_sentences (b # r))"
      by (cases "break_sentences (b # r)") auto
    from False 1 have IH: "occurrences [DOT, NL, NL] (break_sentences (b # r)) =
        shifted 0 (occurrences [DOT, SP] (b # r))"
      by auto
    from False have "occurrences [DOT, SP] (a # b # r) = map Suc (occurrences [DOT, SP] (b # r))"
      by auto
    moreover from False np have "occurrences [DOT, NL, NL] (break_sentences (a # b # r)) =
        map Suc (occurrences [DOT, NL, NL] (break_sentences (b # r)))"
      by auto
    ultimately show ?thesis by (simp only: IH shifted_map_Suc)
  qed
qed (simp_all add: shifted_simps)

lemma shifted_comprehension: "[p + j. (j, p) \<leftarrow> enumerate ps] = shifted 0 ps"
  by (simp add: shifted_def enumerate_def comprehension_pairs)

section \<open>The response cleaner\<close>

text \<open>
  Claim C1. For every raw string, \<open>clean_response\<close> returns what the specification words:
  the string is split on newlines, the lines that are empty after trimming are discarded,
  the others are trimmed and joined with single spaces, and every period followed by a
  space becomes a period followed by two newlines. On the example string of the
  specification, and on the string of the repository's test, the result is the three
  sentences with a blank line between them.
\<close>

theorem clean_response_refines_spec:
  "clean_response R = clean_spec R \<and>
   clean_response (lit ''This is a test response.\<newline>        It has multiple lines.\<newline>        And some extra spaces.   \<newline>'')
     = lit ''This is a test response.\<newline>\<newline>It has multiple lines.\<newline>\<newline>And some extra spaces.'' \<and>
   clean_response (lit ''\<newline>        This is a test response.\<newline>        It has multiple lines.\<newline>        And some extra spaces.   \<newline>        '')
     = lit ''This is a test response.\<newline>\<newline>It has multiple lines.\<newline>\<newline>And some extra spaces.''"
  by (intro conjI clean_response_clean_spec clean_response_spec_example
      clean_response_test_example)

text \<open>
  Claim C10. The result of \<open>clean_response\<close> never contains a period followed by a space,
  and neither does the result of the replacement on any string: no occurrence is left
  and none is created. The result is the joined string with every such occurrence
  rewritten to a period and two newlines and nothing else changed: writing the breaks
  back gives the joined string again; the occurrence of rank \<open>j\<close> (from 0) at position \<open>p\<close>
  of the joined string is the break at position \<open>p + j\<close> of the result, and the result has
  no other break; the result is longer than the joined string by the number of
  occurrences.
\<close>

theorem clean_response_no_period_space:
  "\<not> sublist (lit ''. '') (replace (lit ''. '') (lit ''.\<newline>\<newline>'') s) \<and>
   \<not> sublist (lit ''. '') (clean_response R) \<and>
   clean_response R = replace (lit ''. '') (lit ''.\<newline>\<newline>'') (flattened R) \<and>
   replace (lit ''.\<newline>\<newline>'') (lit ''. '') (clean_response R) = flattened R \<and>
   occurrences (lit ''.\<newline>\<newline>'') (clean_response R) =
     [p + j. (j, p) \<leftarrow> enumerate (occurrences (lit ''. '') (flattened R))] \<and>
   length (clean_response R) =
     length (flattened R) + length (occurrences (lit ''. '') (flattened R))"
  using flattened_no_newline [of R]
  by (simp add: clean_response_flattened lit_simps replace_break_sentences
      no_dot_space_break_sentences replace_back_break_sentences length_break_sentences
      occurrences_break_sentences shifted_comprehension del: occurrences.simps)

text \<open>
  Claim C10 at a reply of two lines with three sentences: the occurrences at positions
  3 and 8 of the joined string are the breaks at positions 3 and 9 of the result.
\<close>

theorem clean_response_no_period_space_witness:
  "flattened (lit ''One. Two.\<newline>  Three. '') = lit ''One. Two. Three.'' \<and>
   clean_response (lit ''One. Two.\<newline>  Three. '') = lit ''One.\<newline>\<newline>Two.\<newline>\<newline>Three.'' \<and>
   occurrences (lit ''. '') (flattened (lit ''One. Two.\<newline>  Three. '')) = [3, 8] \<and>
   occurrences (lit ''.\<newline>\<newline>'') (clean_response (lit ''One. Two.\<newline>  Three. '')) = [3, 9] \<and>
   length (clean_response (lit ''One. Two.\<newline>  Three. '')) = 16 + 2"
proof -
  let ?R = "lit ''One. Two.\<newline>  Three. ''"
  have f: "flattened ?R = lit ''One. Two. Three.''"
    by (simp add: flattened_stripped_lines stripped_lines_def
        lit_def strip_def lstrip_def rstrip_def isspace_def)
  have o: "occurrences (lit ''. '') (lit ''One. Two. Three.'') = [3, 8]"
    by (simp add: lit_def)
  have r: "replace (lit ''. '') (lit ''.\<newline>\<newline>'') (lit ''One. Two. Three.'') =
      lit ''One.\<newline>\<newline>Two.\<newline>\<newline>Three.''"
    by (simp add: lit_simps replace_break_sentences) (simp add: lit_def)
  note t = clean_response_no_period_space [of "[]" ?R]
  from t have "clean_response ?R = replace (lit ''. '') (lit ''.\<newline>\<newline>'') (flattened ?R)"
    by blast
  then have c: "clean_response ?R = lit ''One.\<newline>\<newline>Two.\<newline>\<newline>Three.''"
    by (simp only: f r)
  from t have "occurrences (lit ''.\<newline>\<newline>'') (clean_response ?R) =
      [p + j. (j, p) \<leftarrow> enumerate (occurrences (lit ''. '') (flattened ?R))]"
    by blast
  then have p: "occurrences (lit ''.\<newline>\<newline>'') (clean_response ?R) = [3, 9]"
    unfolding f o by (simp add: enumerate_def)
  from t have "length (clean_response ?R) =
      length (flattened ?R) + length (occurrences (lit ''. '') (flattened ?R))"
    by blast
  then have l: "length (clean_response ?R) = 16 + 2"
    unfolding f o by (simp add: lit_def)
  from f c p l show ?thesis unfolding f o by blast
qed

text \<open>
  Claim C3, as stated: \<open>clean_response\<close> applied twice gives the same as applied once
  whenever the first result has no period followed by a space. That side condition
  always holds, and the statement fails: in \<open>a.  b\<close> (two spaces) the first pass leaves
  a line that begins with a space, which the second pass trims.
\<close>

theorem clean_response_not_idempotent:
  "\<not> sublist (lit ''. '') (clean_response (lit ''a.  b'')) \<and>
   clean_response (clean_response (lit ''a.  b'')) \<noteq> clean_response (lit ''a.  b'')"
proof -
  have "clean_response (lit ''a.  b'') = lit ''a.\<newline>\<newline> b'' \<and>
      clean_response (clean_response (lit ''a.  b'')) = lit ''a.\<newline>\<newline>b''"
    by (simp add: clean_response_flattened flattened_stripped_lines stripped_lines_def
        lit_def strip_def lstrip_def rstrip_def isspace_def)
  then have "clean_response (clean_response (lit ''a.  b'')) = lit ''a.\<newline>\<newline>b''"
    and "clean_response (lit ''a.  b'') = lit ''a.\<newline>\<newline> b''"
    by blast+
  moreover have "lit ''a.\<newline>\<newline>b'' \<noteq> lit ''a.\<newline>\<newline> b''" by (simp add: lit_def)
  ultimately have "clean_response (clean_response (lit ''a.  b'')) \<noteq> clean_response (lit ''a.  b'')"
    by metis
  moreover have "\<not> sublist (lit ''. '') (clean_response (lit ''a.  b''))"
    by (simp add: clean_response_flattened lit_simps no_dot_space_break_sentences)
  ultimately show ?thesis by blast
qed

text \<open>
  Claim C3, amended: \<open>clean_response\<close> applied twice gives the same as applied once
  whenever no line of the first result begins with a whitespace character.
\<close>

theorem clean_response_idempotent_on_trimmed_lines:
  assumes "list_all (\<lambda>l. lstrip l = l) (split NL (clean_response R))"
  shows "clean_response (clean_response R) = clean_response R"
proof -
  let ?J = "flattened R"
  have "\<forall>l \<in> set (split NL (break_sentences ?J)). l = [] \<or> \<not> isspace (hd l)"
    using assms by (auto simp: clean_response_flattened list_all_iff dest: lstrip_fixed)
  moreover have "?J = [] \<or> (\<not> isspace (hd ?J) \<and> \<not> isspace (last ?J))"
    using flattened_ends [of R] by blast
  ultimately have "flattened (break_sentences ?J) = ?J"
    using flattened_no_newline [of R] by (intro flattened_break_sentences)
  then show ?thesis by (simp add: clean_response_flattened)
qed

text \<open>The amended claim C3 at the reply \<open>One. Two.\<close>, whose two lines begin with a letter.\<close>

theorem clean_response_idempotent_on_trimmed_lines_witness:
  "list_all (\<lambda>l. lstrip l = l) (split NL (clean_response (lit ''One. Two.''))) \<and>
   clean_response (lit ''One. Two.'') = lit ''One.\<newline>\<newline>Two.'' \<and>
   clean_response (clean_response (lit ''One. Two.'')) = clean_response (lit ''One. Two.'')"
proof -
  have v: "clean_response (lit ''One. Two.'') = lit ''One.\<newline>\<newline>Two.''"
    by (simp add: clean_response_flattened flattened_stripped_lines stripped_lines_def
        lit_def strip_def lstrip_def rstrip_def isspace_def)
  have h: "list_all (\<lambda>l. lstrip l = l) (split NL (clean_response (lit ''One. Two.'')))"
    unfolding v by (simp add: lit_def lstrip_def isspace_def)
  from clean_response_idempotent_on_trimmed_lines [OF h] h v show ?thesis by simp
qed

text \<open>
  Claim C4, as stated: no line of the result is empty after trimming. It fails wherever
  a sentence break was inserted: the two newlines enclose an empty line.
\<close>

theorem clean_response_blank_line:
  "split NL (clean_response (lit ''a. b'')) = [lit ''a.'', [], lit ''b''] \<and>
   strip (split NL (clean_response (lit ''a. b'')) ! 1) = []"
  by (simp add: clean_response_flattened flattened_stripped_lines stripped_lines_def
      lit_def strip_def lstrip_def rstrip_def isspace_def)

text \<open>
  Claim C4, amended: the result has no leading and no trailing whitespace; of its lines,
  counted from 0, those at odd positions are the empty lines of the inserted breaks, and
  those at even positions are not empty after trimming, unless the result is the empty
  string.
\<close>

theorem clean_response_layout:
  "strip (clean_response R) = clean_response R \<and>
   (\<forall>i < length (split NL (clean_response R)).
      (odd i \<longrightarrow> split NL (clean_response R) ! i = []) \<and>
      (even i \<longrightarrow> clean_response R = [] \<or> strip (split NL (clean_response R) ! i) \<noteq> []))"
proof (cases "flattened R = []")
  case True
  then show ?thesis by (simp add: clean_response_flattened)
next
  case False
  let ?J = "flattened R"
  let ?C = "break_sentences ?J"
  from False have e: "\<not> isspace (hd ?J)" "\<not> isspace (last ?J)" by (rule flattened_ends)+
  then have "last ?J \<noteq> SP" by auto
  with False have "last ?C = last ?J" by (rule last_break_sentences)
  with e False have "strip ?C = ?C"
    by (intro strip_id) (simp_all add: break_sentences_Nil_iff hd_break_sentences)
  moreover have "paragraph_lines (split NL ?C)"
    using False flattened_no_newline e(2) by (rule split_break_sentences_layout)
  ultimately show ?thesis
    using paragraph_lines_nth [of "split NL ?C"] by (simp add: clean_response_flattened)
qed

text \<open>The amended claim C4 at the reply \<open>a. b\<close>: three lines, the middle one empty.\<close>

theorem clean_response_layout_witness:
  "length (split NL (clean_response (lit ''a. b''))) = 3 \<and>
   strip (clean_response (lit ''a. b'')) = clean_response (lit ''a. b'') \<and>
   split NL (clean_response (lit ''a. b'')) ! 1 = [] \<and>
   strip (split NL (clean_response (lit ''a. b'')) ! 2) \<noteq> []"
proof -
  have v: "clean_response (lit ''a. b'') = lit ''a.\<newline>\<newline>b''"
    by (simp add: clean_response_flattened flattened_stripped_lines stripped_lines_def
        lit_def strip_def lstrip_def rstrip_def isspace_def)
  have len: "length (split NL (clean_response (lit ''a. b''))) = 3"
    unfolding v by (simp add: lit_def)
  have ne: "clean_response (lit ''a. b'') \<noteq> []" unfolding v by (simp add: lit_def)
  note t = clean_response_layout [of "lit ''a. b''"]
  from t have a: "strip (clean_response (lit ''a. b'')) = clean_response (lit ''a. b'')"
    by (rule conjunct1)
  from t len have "odd (1::nat) \<longrightarrow> split NL (clean_response (lit ''a. b'')) ! 1 = []"
    by auto
  then have b: "split NL (clean_response (lit ''a. b'')) ! 1 = []" by simp
  from t len have "even (2::nat) \<longrightarrow> clean_response (lit ''a. b'') = [] \<or>
      strip (split NL (clean_response (lit ''a. b'')) ! 2) \<noteq> []"
    by auto
  with ne have c: "strip (split NL (clean_response (lit ''a. b'')) ! 2) \<noteq> []" by simp
  from len a b c show ?thesis by blast
qed

section \<open>The context formatter\<close>

text \<open>
  Claim C5. For every sequence of passages, \<open>format_context\<close> returns the entries
  \<open>Source i+1:\<close>, newline, content of the passage at position \<open>i\<close>, joined with a blank
  line, the contents inserted as they are. For no passage it returns the empty string,
  and for the two documents of the test the expected text.
\<close>

theorem format_context_refines_spec:
  "format_context P = format_spec P \<and>
   format_context [] = [] \<and>
   format_context [\<lparr>page_content = lit ''Test content 1'', metadata = []\<rparr>,
                   \<lparr>page_content = lit ''Test content 2'', metadata = []\<rparr>]
     = lit ''Source 1:\<newline>Test content 1\<newline>\<newline>Source 2:\<newline>Test content 2''"
  by (intro conjI format_context_format_spec format_context_Nil format_context_two_documents)

text \<open>
  Claim C6, as stated: for arbitrary contents the formatted context has exactly as many
  occurrences of \<open>Source \<close> as there are passages. It fails for a passage whose content
  holds the label text itself, since contents are inserted as they are: one passage,
  two occurrences (at positions 0 and 10).
\<close>

theorem format_context_extra_source:
  "occurrences (lit ''Source '')
     (format_context [\<lparr>page_content = lit ''Source X'', metadata = []\<rparr>]) = [0, 10] \<and>
   length (occurrences (lit ''Source '')
     (format_context [\<lparr>page_content = lit ''Source X'', metadata = []\<rparr>]))
   \<noteq> length [\<lparr>page_content = lit ''Source X'', metadata = []\<rparr>]"
  by (simp add: format_context_from format_from_def source_entry_def lit_def str_nat.simps)

text \<open>
  Claim C6, amended: when no passage content contains \<open>Source \<close>, the formatted context
  has exactly as many occurrences of \<open>Source \<close> as there are passages, and the occurrence
  at position \<open>j\<close> in their order (from 0) is followed by the decimal number \<open>j + 1\<close>, a
  colon and a newline.
\<close>

theorem format_context_source_labels:
  assumes "list_all (\<lambda>d. occurrences (lit ''Source '') (page_content d) = []) P"
  shows "length (occurrences (lit ''Source '') (format_context P)) = length P \<and>
    (\<forall>j < length P.
       prefix (str_nat (j + 1) @ lit '':\<newline>'')
         (drop (occurrences (lit ''Source '') (format_context P) ! j + length (lit ''Source ''))
            (format_context P)))"
proof -
  have l: "length (lit ''Source '') = 7" by (simp add: lit_def)
  show ?thesis
    using occurrences_format_from [of P 0] assms unfolding l
    by (simp add: lit_simps2 format_context_from)
qed

text \<open>The amended claim C6 at the two documents of the test.\<close>

theorem format_context_source_labels_witness:
  "list_all (\<lambda>d. occurrences (lit ''Source '') (page_content d) = [])
     [\<lparr>page_content = lit ''Test content 1'', metadata = []\<rparr>,
      \<lparr>page_content = lit ''Test content 2'', metadata = []\<rparr>] \<and>
   length (occurrences (lit ''Source '')
     (format_context [\<lparr>page_content = lit ''Test content 1'', metadata = []\<rparr>,
                      \<lparr>page_content = lit ''Test content 2'', metadata = []\<rparr>])) = 2 \<and>
   prefix (str_nat 2 @ lit '':\<newline>'')
     (drop (occurrences (lit ''Source '')
              (format_context [\<lparr>page_content = lit ''Test content 1'', metadata = []\<rparr>,
                               \<lparr>page_content = lit ''Test content 2'', metadata = []\<rparr>]) ! 1
            + length (lit ''Source ''))
        (format_context [\<lparr>page_content = lit ''Test content 1'', metadata = []\<rparr>,
                         \<lparr>page_content = lit ''Test content 2'', metadata = []\<rparr>]))"
proof -
  let ?P = "[\<lparr>page_content = lit ''Test content 1'', metadata = []\<rparr>,
             \<lparr>page_content = lit ''Test content 2'', metadata = []\<rparr>]"
  have h: "list_all (\<lambda>d. occurrences (lit ''Source '') (page_content d) = []) ?P"
    by (simp add: lit_def)
  note t = format_context_source_labels [OF h]
  from t have a: "length (occurrences (lit ''Source '') (format_context ?P)) = 2" by simp
  from t have "\<forall>j < length ?P. prefix (str_nat (j + 1) @ lit '':\<newline>'')
         (drop (occurrences (lit ''Source '') (format_context ?P) ! j + length (lit ''Source ''))
            (format_context ?P))"
    by (rule conjunct2)
  then have "prefix (str_nat (1 + 1) @ lit '':\<newline>'')
         (drop (occurrences (lit ''Source '') (format_context ?P) ! 1 + length (lit ''Source ''))
            (format_context ?P))"
    by (simp del: format_context_def)
  then have b: "prefix (str_nat 2 @ lit '':\<newline>'')
         (drop (occurrences (lit ''Source '') (format_context ?P) ! 1 + length (lit ''Source ''))
            (format_context ?P))"
    by (simp only: one_add_one)
  from h a b show ?thesis by blast
qed

section \<open>The pipeline\<close>

text \<open>
  Claim C9. For every context and question, formatting the template with them succeeds
  and the prompt contains both as contiguous parts, in full. So it is in \<open>get_answer\<close>:
  whenever the search returns passages, the prompt with which the model is called
  contains the formatted context of these passages and the question, in full.
\<close>

theorem rendered_prompt_contains_slots:
  "(\<exists>prompt. (format_template TEMPLATE [(lit ''context'', c), (lit ''question'', q)]
               :: 'e exn + str) = Inr prompt \<and>
            sublist c prompt \<and> sublist q prompt) \<and>
   (db question (case k_arg of None \<Rightarrow> 4 | Some k \<Rightarrow> k) = Inr docs \<longrightarrow>
      (\<exists>prompt result.
         get_answer (init db chat :: 'e FootballQA) question k_arg =
           (result, [Similarity_Search question (case k_arg of None \<Rightarrow> 4 | Some k \<Rightarrow> k),
                     Llm_Invoke prompt]) \<and>
         sublist (format_context docs) prompt \<and> sublist question prompt))"
proof -
  have s1: "sublist x (render x y)" for x y
    unfolding render_def by (rule sublist_appendI)
  have s2: "sublist y (render x y)" for x y
    unfolding render_def sublist_def by (metis append.assoc)
  have "\<exists>prompt. (format_template TEMPLATE [(lit ''context'', c), (lit ''question'', q)]
               :: 'e exn + str) = Inr prompt \<and> sublist c prompt \<and> sublist q prompt"
    by (simp add: format_TEMPLATE s1 s2)
  moreover have "\<exists>prompt result.
         get_answer (init db chat) question k_arg =
           (result, [Similarity_Search question (case k_arg of None \<Rightarrow> 4 | Some k \<Rightarrow> k),
                     Llm_Invoke prompt]) \<and>
         sublist (format_context docs) prompt \<and> sublist question prompt"
    if "db question (case k_arg of None \<Rightarrow> 4 | Some k \<Rightarrow> k) = Inr docs"
    using that s1 [of "format_context docs" question] s2 [of question "format_context docs"]
    by (cases "chat (render (format_context docs) question)") (auto simp: get_answer_init)
  ultimately show ?thesis by blast
qed

text \<open>
  Claim C9 in \<open>get_answer\<close> at the store and the model of the test: the model is called
  with a prompt that contains the one formatted passage and the question.
\<close>

theorem rendered_prompt_contains_slots_witness:
  "\<exists>prompt result.
     get_answer (init (\<lambda>q k. Inr [\<lparr>page_content = lit ''Ajax plays attacking football'', metadata = []\<rparr>])
                      (\<lambda>p. Inr (lit ''Test response about Ajax tactics'')) :: unit FootballQA)
       (lit ''How does Ajax play?'') None =
       (result, [Similarity_Search (lit ''How does Ajax play?'') 4, Llm_Invoke prompt]) \<and>
     sublist (format_context [\<lparr>page_content = lit ''Ajax plays attacking football'', metadata = []\<rparr>]) prompt \<and>
     sublist (lit ''How does Ajax play?'') prompt"
  using rendered_prompt_contains_slots
     [where db = "\<lambda>q k. Inr [\<lparr>page_content = lit ''Ajax plays attacking football'', metadata = []\<rparr>]"
      and question = "lit ''How does Ajax play?''" and k_arg = None
      and docs = "[\<lparr>page_content = lit ''Ajax plays attacking football'', metadata = []\<rparr>]"
      and chat = "\<lambda>p. Inr (lit ''Test response about Ajax tactics'')", THEN conjunct2]
  by simp

text \<open>
  Claim C2. With \<open>k\<close> the given number of passages, or 4 when none is given, and a store
  and a model that answer, \<open>get_answer\<close> searches the store once with the question and
  \<open>k\<close>, formats the passages found, fills the template with that context and the
  question, calls the model once with the prompt, and returns the cleaned reply. With
  the store and the model of the test, the answer for \<open>How does Ajax play?\<close> is the
  non-empty reply and the store was searched once, with \<open>k = 4\<close>.
\<close>

theorem get_answer_pipeline:
  assumes "k = (case k_arg of None \<Rightarrow> 4 | Some k' \<Rightarrow> k')"
    and "db question k = Inr docs"
    and "chat (render (format_context docs) question) = Inr reply"
  shows "get_answer (init db chat) question k_arg =
           (Inr (clean_response reply),
            [Similarity_Search question k, Llm_Invoke (render (format_context docs) question)])
         \<and> (\<exists>prompt.
              get_answer
                (init (\<lambda>q k. Inr [\<lparr>page_content = lit ''Ajax plays attacking football'', metadata = []\<rparr>])
                      (\<lambda>p. Inr (lit ''Test response about Ajax tactics'')) :: 'x FootballQA)
                (lit ''How does Ajax play?'') None =
              (Inr (lit ''Test response about Ajax tactics''),
               [Similarity_Search (lit ''How does Ajax play?'') 4, Llm_Invoke prompt])
            \<and> lit ''Test response about Ajax tactics'' \<noteq> [])"
proof
  from assms show "get_answer (init db chat) question k_arg =
           (Inr (clean_response reply),
            [Similarity_Search question k, Llm_Invoke (render (format_context docs) question)])"
    by (simp add: get_answer_init)
next
  have "clean_response (lit ''Test response about Ajax tactics'') = lit ''Test response about Ajax tactics''"
    by (simp add: clean_response_flattened flattened_stripped_lines stripped_lines_def
        lit_def strip_def lstrip_def rstrip_def isspace_def)
  then show "\<exists>prompt.
              get_answer
                (init (\<lambda>q k. Inr [\<lparr>page_content = lit ''Ajax plays attacking football'', metadata = []\<rparr>])
                      (\<lambda>p. Inr (lit ''Test response about Ajax tactics'')) :: 'x FootballQA)
                (lit ''How does Ajax play?'') None =
              (Inr (lit ''Test response about Ajax tactics''),
               [Similarity_Search (lit ''How does Ajax play?'') 4, Llm_Invoke prompt])
            \<and> lit ''Test response about Ajax tactics'' \<noteq> []"
    by (simp add: get_answer_init) (simp add: lit_def)
qed

text \<open>
  Claim C2 at a store that returns two passages for \<open>k = 2\<close> and fails for any other
  number, and a model with a two-sentence reply.
\<close>

theorem get_answer_pipeline_witness:
  "(2 :: int) = (case Some 2 of None \<Rightarrow> 4 | Some k' \<Rightarrow> k') \<and>
   get_answer
     (init (\<lambda>q k. if k = 2 then Inr [\<lparr>page_content = lit ''Ajax presses high'', metadata = []\<rparr>,
                                       \<lparr>page_content = lit ''Wingers stay wide'', metadata = []\<rparr>]
                   else Inl (Raised ()))
           (\<lambda>p. Inr (lit ''Ajax zet hoog druk. De buitenspelers blijven breed.'')))
     (lit ''How does Ajax press?'') (Some 2) =
   (Inr (clean_response (lit ''Ajax zet hoog druk. De buitenspelers blijven breed.'')),
    [Similarity_Search (lit ''How does Ajax press?'') 2,
     Llm_Invoke (render (format_context [\<lparr>page_content = lit ''Ajax presses high'', metadata = []\<rparr>,
                                       \<lparr>page_content = lit ''Wingers stay wide'', metadata = []\<rparr>])
                   (lit ''How does Ajax press?''))])"
  using get_answer_pipeline [where k = 2 and k_arg = "Some 2"
      and db = "\<lambda>q k. if k = 2 then Inr [\<lparr>page_content = lit ''Ajax presses high'', metadata = []\<rparr>,
                                       \<lparr>page_content = lit ''Wingers stay wide'', metadata = []\<rparr>]
                   else Inl (Raised ())"
      and question = "lit ''How does Ajax press?''"
      and docs = "[\<lparr>page_content = lit ''Ajax presses high'', metadata = []\<rparr>,
        \<lparr>page_content = lit ''Wingers stay wide'', metadata = []\<rparr>]"
      and chat = "\<lambda>p. Inr (lit ''Ajax zet hoog druk. De buitenspelers blijven breed.'')"
      and reply = "lit ''Ajax zet hoog druk. De buitenspelers blijven breed.''", THEN conjunct1]
  by simp

text \<open>
  Claim C7. When the search of the store fails, \<open>get_answer\<close> ends with that failure
  after the one search, without calling the model; when the search succeeds and the
  model call fails, it ends with that failure after the one search and the one call.
  No failure is replaced by an answer and no call is repeated.
\<close>

theorem get_answer_propagates_failure:
  assumes "k = (case k_arg of None \<Rightarrow> 4 | Some k' \<Rightarrow> k')"
  shows "(db question k = Inl e \<longrightarrow>
           get_answer (init db chat) question k_arg = (Inl e, [Similarity_Search question k])) \<and>
         (db question k = Inr docs \<and> chat (render (format_context docs) question) = Inl e \<longrightarrow>
           get_answer (init db chat) question k_arg =
             (Inl e, [Similarity_Search question k,
                      Llm_Invoke (render (format_context docs) question)]))"
  using assms by (simp add: get_answer_init)

text \<open>Claim C7 at a store that is unreachable, and at a model that is out of quota.\<close>

theorem get_answer_propagates_failure_witness:
  "get_answer (init (\<lambda>q k. Inl (Raised ''index unreachable''))
                    (\<lambda>p. Inr (lit ''never asked'')))
      (lit ''How does Ajax play?'') None =
     (Inl (Raised ''index unreachable''), [Similarity_Search (lit ''How does Ajax play?'') 4]) \<and>
   get_answer (init (\<lambda>q k. Inr [\<lparr>page_content = lit ''Ajax plays attacking football'', metadata = []\<rparr>])
                    (\<lambda>p. Inl (Raised ''quota exceeded'')))
      (lit ''How does Ajax play?'') (Some 1) =
     (Inl (Raised ''quota exceeded''),
      [Similarity_Search (lit ''How does Ajax play?'') 1,
       Llm_Invoke (render (format_context [\<lparr>page_content = lit ''Ajax plays attacking football'', metadata = []\<rparr>])
                     (lit ''How does Ajax play?''))])"
  using get_answer_propagates_failure [where k = 4 and k_arg = None
             and db = "\<lambda>q k. Inl (Raised ''index unreachable'')"
             and question = "lit ''How does Ajax play?''" and e = "Raised ''index unreachable''"
             and chat = "\<lambda>p. Inr (lit ''never asked'')", THEN conjunct1]
        get_answer_propagates_failure [where k = 1 and k_arg = "Some 1"
             and db = "\<lambda>q k. Inr [\<lparr>page_content = lit ''Ajax plays attacking football'', metadata = []\<rparr>]"
             and question = "lit ''How does Ajax play?''"
             and docs = "[\<lparr>page_content = lit ''Ajax plays attacking football'', metadata = []\<rparr>]"
             and chat = "\<lambda>p. Inl (Raised ''quota exceeded'')" and e = "Raised ''quota exceeded''",
             THEN conjunct2]
  by simp

text \<open>
  Claim C8. When the search returns no passage, the formatted context is the empty
  string and \<open>get_answer\<close> goes on as usual: it fills the template with the empty
  context, calls the model once and returns the cleaned reply.
\<close>

theorem get_answer_empty_context:
  assumes "k = (case k_arg of None \<Rightarrow> 4 | Some k' \<Rightarrow> k')"
    and "db question k = Inr []"
    and "chat (render [] question) = Inr reply"
  shows "format_context [] = [] \<and>
         get_answer (init db chat) question k_arg =
           (Inr (clean_response reply),
            [Similarity_Search question k, Llm_Invoke (render [] question)])"
  using assms by (simp add: get_answer_init format_context_Nil)

text \<open>Claim C8 at an empty store and a model that answers with the fallback sentence.\<close>

theorem get_answer_empty_context_witness:
  "get_answer (init (\<lambda>q k. Inr []) (\<lambda>p. Inr (lit ''Ik kan alleen vragen over voetbal beantwoorden.'')))
      (lit ''What is the weather like today?'') None =
     (Inr (clean_response (lit ''Ik kan alleen vragen over voetbal beantwoorden.'')),
      [Similarity_Search (lit ''What is the weather like today?'') 4,
       Llm_Invoke (render [] (lit ''What is the weather like today?''))])"
  using get_answer_empty_context [where k = 4 and k_arg = None and db = "\<lambda>q k. Inr []"
             and question = "lit ''What is the weather like today?''"
             and chat = "\<lambda>p. Inr (lit ''Ik kan alleen vragen over voetbal beantwoorden.'')"
             and reply = "lit ''Ik kan alleen vragen over voetbal beantwoorden.''", THEN conjunct2]
  by simp

end
